theory Spec2Isabelle
  imports Main
begin

section \<open>Report extraction of \<^verbatim>\<open>src/evaluation.py\<close>\<close>

text \<open>
  The two extraction functions of the dashboard, \<^verbatim>\<open>extract_metadata\<close> and
  \<^verbatim>\<open>load_and_process_data\<close>, are embedded as HOL functions. Both take a path, open the
  file for reading and work on the list returned by \<^verbatim>\<open>readlines()\<close>.

  \<^item> A Python \<^verbatim>\<open>str\<close> is a \<open>string\<close>; one \<open>char\<close> stands for one character of
    the decoded text (the code points up to U+00FF).
  \<^item> The files on disk are a map from paths to the lines of each file, every line as
    \<^verbatim>\<open>readlines()\<close> returns it (with its line terminator). The functions only read it.
  \<^item> An exception is a value of \<open>error\<close>, named after the Python exception that is
    raised; a function that can raise returns \<open>error + 'a\<close>.
\<close>

subsection \<open>Exceptions and files\<close>

datatype error =
    FileNotFoundError   \<comment> \<open>\<^verbatim>\<open>open(file_path, 'r')\<close> on a missing path\<close>
  | StopIteration       \<comment> \<open>\<^verbatim>\<open>next(...)\<close> on an exhausted generator\<close>
  | IndexError          \<comment> \<open>\<^verbatim>\<open>xs[i]\<close> out of range\<close>
  | EmptyDataError      \<comment> \<open>\<^verbatim>\<open>pandas.read_csv\<close> with no line left for the header\<close>

type_synonym files = "string \<rightharpoonup> string list"

text \<open>\<^verbatim>\<open>with open(file_path, 'r') as file: content = file.readlines()\<close>\<close>

definition readlines :: "files \<Rightarrow> string \<Rightarrow> error + string list" where
  "readlines fs file_path =
     (case fs file_path of None \<Rightarrow> Inl FileNotFoundError | Some content \<Rightarrow> Inr content)"

text \<open>\<^verbatim>\<open>xs[i]\<close> for an index \<open>i \<ge> 0\<close>.\<close>

definition getitem :: "'a list \<Rightarrow> nat \<Rightarrow> error + 'a" where
  "getitem xs i = (if i < length xs then Inr (xs ! i) else Inl IndexError)"

subsection \<open>String operations of Python\<close>

text \<open>\<^verbatim>\<open>s.startswith(p)\<close>\<close>

fun startswith :: "string \<Rightarrow> string \<Rightarrow> bool" where
  "startswith s [] = True"
| "startswith [] (p # ps) = False"
| "startswith (c # cs) (p # ps) = (c = p \<and> startswith cs ps)"

text \<open>\<^verbatim>\<open>sub in s\<close>: some position of \<open>s\<close> starts with \<open>sub\<close>.\<close>

fun contains :: "string \<Rightarrow> string \<Rightarrow> bool" where
  "contains sub [] = (sub = [])"
| "contains sub (c # cs) = (startswith (c # cs) sub \<or> contains sub cs)"

text \<open>
  \<^verbatim>\<open>s.split(sep)\<close>: the text is cut at every occurrence of \<open>sep\<close>, found from left to
  right without overlap; \<open>acc\<close> is the piece being collected. Python raises ValueError for
  an empty separator; the source only splits on the non-empty literals
  \<^verbatim>\<open>': '\<close>, \<^verbatim>\<open>'Error Distribution:'\<close>, \<^verbatim>\<open>'('\<close> and \<^verbatim>\<open>')'\<close>.
\<close>

fun split_from :: "string \<Rightarrow> string \<Rightarrow> string \<Rightarrow> string list" where
  "split_from sep acc [] = [acc]"
| "split_from sep acc (c # cs) =
     (if sep \<noteq> [] \<and> startswith (c # cs) sep
      then acc # split_from sep [] (drop (length sep) (c # cs))
      else split_from sep (acc @ [c]) cs)"

definition py_split :: "string \<Rightarrow> string \<Rightarrow> string list" where
  "py_split sep s = split_from sep [] s"

text \<open>
  \<^verbatim>\<open>c.isspace()\<close> on the characters up to U+00FF: tab, line feed, vertical tab, form feed,
  carriage return, the four separators U+001C to U+001F, space, U+0085 and U+00A0.
\<close>

definition isspace :: "char \<Rightarrow> bool" where
  "isspace c \<longleftrightarrow> c \<in> set [CHR 0x09, CHR 0x0A, CHR 0x0B, CHR 0x0C, CHR 0x0D,
                           CHR 0x1C, CHR 0x1D, CHR 0x1E, CHR 0x1F, CHR 0x20,
                           CHR 0x85, CHR 0xA0]"

text \<open>\<^verbatim>\<open>s.strip()\<close>\<close>

definition strip :: "string \<Rightarrow> string" where
  "strip s = rev (dropWhile isspace (rev (dropWhile isspace s)))"

text \<open>\<^verbatim>\<open>sep.join(xs)\<close>\<close>

fun join_str :: "string \<Rightarrow> string list \<Rightarrow> string" where
  "join_str sep [] = []"
| "join_str sep [x] = x"
| "join_str sep (x # y # ys) = x @ sep @ join_str sep (y # ys)"

subsection \<open>Metadata\<close>

text \<open>The dictionary built by \<^verbatim>\<open>extract_metadata\<close>, with its five keys.\<close>

record metadata =
  instruments :: string
  periode :: string
  model :: string
  region :: string
  type_erreur :: string

text \<open>\<^verbatim>\<open>content[k].split(': ')[1].strip()\<close>, the expression of lines 30 to 33.\<close>

definition header_value :: "string list \<Rightarrow> nat \<Rightarrow> error + string" where
  "header_value content k =
     (case getitem content k of
        Inl e \<Rightarrow> Inl e
      | Inr line \<Rightarrow>
          (case getitem (py_split '': '' line) 1 of
             Inl e \<Rightarrow> Inl e
           | Inr v \<Rightarrow> Inr (strip v)))"

text \<open>
  The body of the loop of lines 37 to 42 for a line that contains the marker:
  \<^verbatim>\<open>error_info\<close>, then \<^verbatim>\<open>param\<close>, then \<^verbatim>\<open>error_type\<close>. The result is the pair
  \<open>(error_type, param)\<close>.
\<close>

definition parse_error_line :: "string \<Rightarrow> error + (string \<times> string)" where
  "parse_error_line line =
     (case getitem (py_split ''Error Distribution:'' line) 1 of
        Inl e \<Rightarrow> Inl e
      | Inr seg \<Rightarrow>
          (let error_info = strip seg in
           case (if contains ''('' error_info
                 then (case getitem (py_split ''('' error_info) 1 of
                         Inl e \<Rightarrow> Inl e
                       | Inr inner \<Rightarrow> getitem (py_split '')'' inner) 0)
                 else Inr [])
           of
             Inl e \<Rightarrow> Inl e
           | Inr param \<Rightarrow>
               (case getitem (py_split ''('' error_info) 0 of
                  Inl e \<Rightarrow> Inl e
                | Inr t \<Rightarrow> Inr (strip t, param))))"

text \<open>
  The loop \<^verbatim>\<open>for line in content\<close>: \<open>error_types\<close> is the list built so far, and each
  marker line appends \<^verbatim>\<open>f"{error_type} ({param})"\<close>.
\<close>

fun scan_error_types :: "string list \<Rightarrow> string list \<Rightarrow> error + string list" where
  "scan_error_types [] error_types = Inr error_types"
| "scan_error_types (line # rest) error_types =
     (if contains ''Error Distribution:'' line
      then (case parse_error_line line of
              Inl e \<Rightarrow> Inl e
            | Inr (error_type, param) \<Rightarrow>
                scan_error_types rest
                  (error_types @ [error_type @ '' ('' @ param @ '')'']))
      else scan_error_types rest error_types)"

text \<open>
  The descriptor that a marker line adds to \<^verbatim>\<open>error_types\<close>:
  \<^verbatim>\<open>f"{error_type} ({param})"\<close>. (A marker line always parses, see
  \<open>parse_error_line_eq\<close>.)
\<close>

definition descriptor :: "string \<Rightarrow> string" where
  "descriptor line =
     (case parse_error_line line of
        Inl e \<Rightarrow> []
      | Inr (error_type, param) \<Rightarrow> error_type @ '' ('' @ param @ '')'')"

definition extract_metadata :: "files \<Rightarrow> string \<Rightarrow> error + metadata" where
  "extract_metadata fs file_path =
     (case readlines fs file_path of
        Inl e \<Rightarrow> Inl e
      | Inr content \<Rightarrow>
     (case header_value content 1 of
        Inl e \<Rightarrow> Inl e
      | Inr v1 \<Rightarrow>
     (case header_value content 2 of
        Inl e \<Rightarrow> Inl e
      | Inr v2 \<Rightarrow>
     (case header_value content 3 of
        Inl e \<Rightarrow> Inl e
      | Inr v3 \<Rightarrow>
     (case header_value content 4 of
        Inl e \<Rightarrow> Inl e
      | Inr v4 \<Rightarrow>
     (case scan_error_types content [] of
        Inl e \<Rightarrow> Inl e
      | Inr error_types \<Rightarrow>
          Inr \<lparr>instruments = v1, periode = v2, model = v3, region = v4,
               type_erreur = join_str '', '' error_types\<rparr>))))))"

subsection \<open>Tables\<close>

text \<open>
  \<^verbatim>\<open>next(i for i, line in enumerate(content) if sub in line)\<close>: the index of the first
  line that contains \<open>sub\<close>; \<open>i\<close> is the index of the head of the list. With no default
  given, \<^verbatim>\<open>next\<close> raises StopIteration when no line matches.
\<close>

fun next_index :: "string \<Rightarrow> nat \<Rightarrow> string list \<Rightarrow> error + nat" where
  "next_index sub i [] = Inl StopIteration"
| "next_index sub i (line # rest) =
     (if contains sub line then Inr i else next_index sub (Suc i) rest)"

text \<open>
  What \<^verbatim>\<open>read_csv\<close> reads for a data frame: the fields of the header line and, for each
  row, the fields of its line, as text. The frame that pandas returns has one row for each
  of these rows. Its cells are the values that pandas converts the texts to (a column of
  numbers becomes floating point, an empty field or a marker such as \<^verbatim>\<open>NA\<close> becomes
  NaN), and its column names are the header fields with duplicates and empty names
  renamed. These conversions are not modelled: a cell of the model is the text that was
  read, not the value pandas makes of it. The theorems on tables therefore state whether
  a call fails and how many rows a frame has; the text of a cell is shown only for the
  sample files.
\<close>

record DataFrame =
  columns :: "string list"
  rows :: "string list list"

text \<open>
  The fields of one line as the \<^verbatim>\<open>csv\<close> reader of the python engine cuts it: the line
  terminator is dropped and the rest is split at the commas.
\<close>

definition chomp :: "string \<Rightarrow> string" where
  "chomp line = (if line \<noteq> [] \<and> last line = CHR 0x0A then butlast line else line)"

definition csv_fields :: "string \<Rightarrow> string list" where
  "csv_fields line = py_split '','' (chomp line)"

text \<open>
  \<^verbatim>\<open>pd.read_csv(file_path, skiprows=k, nrows=n, engine='python')\<close>. The library is not
  part of the repository; this is the selection of lines it makes on plain comma-separated
  text, as documented: the first \<open>k\<close> lines are skipped, the next line gives the column
  names, and at most \<open>n\<close> further lines are read as rows. It raises EmptyDataError when
  no line is left for the column names, and it returns fewer than \<open>n\<close> rows when the
  file ends early. Pandas has further rules that are not modelled: a quoted field can
  span lines, blank lines are skipped, a row with more fields than the header raises
  ParserError, and a shorter row is padded. The theorems on tables assume \<open>plain_csv\<close>
  and \<open>plain_block\<close>, which exclude these cases, and they speak only of failure and of
  the number of rows.
\<close>

definition read_csv :: "files \<Rightarrow> string \<Rightarrow> nat \<Rightarrow> nat \<Rightarrow> error + DataFrame" where
  "read_csv fs file_path skiprows nrows =
     (case readlines fs file_path of
        Inl e \<Rightarrow> Inl e
      | Inr content \<Rightarrow>
          (case drop skiprows content of
             [] \<Rightarrow> Inl EmptyDataError
           | header # data \<Rightarrow>
               Inr \<lparr>columns = csv_fields header,
                    rows = map csv_fields (take nrows data)\<rparr>))"

definition load_and_process_data :: "files \<Rightarrow> string \<Rightarrow> error + (DataFrame \<times> DataFrame)" where
  "load_and_process_data fs file_path =
     (case readlines fs file_path of
        Inl e \<Rightarrow> Inl e
      | Inr content \<Rightarrow>
     (case next_index ''Error Distribution: Direction'' 0 content of
        Inl e \<Rightarrow> Inl e
      | Inr dir_start \<Rightarrow>
     (case next_index ''Error Distribution: NEVA'' 0 content of
        Inl e \<Rightarrow> Inl e
      | Inr neva_start \<Rightarrow>
     (case read_csv fs file_path (dir_start + 1) 4 of
        Inl e \<Rightarrow> Inl e
      | Inr dir_data \<Rightarrow>
     (case read_csv fs file_path (neva_start + 1) 4 of
        Inl e \<Rightarrow> Inl e
      | Inr neva_data \<Rightarrow> Inr (dir_data, neva_data))))))"

text \<open>
  The text files the table theorems are about: no line has a quote character (so that a
  line of the file is a row of the \<^verbatim>\<open>csv\<close> reader), and in a block made of a header line and
  its rows no line is blank and every row has as many fields as the header.
\<close>

definition plain_csv :: "string list \<Rightarrow> bool" where
  "plain_csv content = list_all (\<lambda>line. CHR 0x22 \<notin> set line) content"

definition plain_block :: "string list \<Rightarrow> bool" where
  "plain_block block =
     (case block of
        [] \<Rightarrow> False
      | header # data \<Rightarrow>
          list_all (\<lambda>line. strip line \<noteq> []) block \<and>
          list_all (\<lambda>row. length (csv_fields row) = length (csv_fields header)) data)"



subsection \<open>Vocabulary of the claims\<close>

text \<open>
  The text before and after the first occurrence of \<open>sub\<close> in a string (the first and
  the last component of Python's \<^verbatim>\<open>s.partition(sub)\<close>): with no occurrence, the text
  before is the whole string and the text after is empty.
\<close>

fun text_before :: "string \<Rightarrow> string \<Rightarrow> string" where
  "text_before sub [] = []"
| "text_before sub (c # cs) = (if startswith (c # cs) sub then [] else c # text_before sub cs)"

fun text_after :: "string \<Rightarrow> string \<Rightarrow> string" where
  "text_after sub [] = []"
| "text_after sub (c # cs) =
     (if startswith (c # cs) sub then drop (length sub) (c # cs) else text_after sub cs)"

text \<open>
  The pair that the specification describes for a marker line: the text after the marker
  substring, cut at its first \<^verbatim>\<open>(\<close> ... \<^verbatim>\<open>)\<close> pair when there is one, with an empty
  parameter otherwise.
\<close>

definition claimed_error_pair :: "string \<Rightarrow> string \<times> string" where
  "claimed_error_pair line =
     (let t = strip (text_after ''Error Distribution:'' line) in
      if contains ''('' t \<and> contains '')'' (text_after ''('' t)
      then (strip (text_before ''('' t), text_before '')'' (text_after ''('' t))
      else (t, []))"

subsection \<open>Sample files\<close>

text \<open>
  The report of the specification's end-to-end scenario, in three parts, and variants of
  it. Each line ends with its line terminator, as \<^verbatim>\<open>readlines()\<close> returns it;
  \<open>CHR 0xE9\<close> and \<open>CHR 0xE8\<close> are the accented letters of the French labels.
\<close>

definition sample_header :: "string list" where
  "sample_header =
     [''Title\<newline>'',
      ''Instruments: HIRESv1,HIRESv3\<newline>'',
      ''P'' @ [CHR 0xE9] @ ''riode: 2020-2023\<newline>'',
      ''Mod'' @ [CHR 0xE8] @ ''le: MED\<newline>'',
      ''R'' @ [CHR 0xE9] @ ''gion: Global\<newline>'']"

definition sample_direction :: "string list" where
  "sample_direction =
     [''Error Distribution: Direction (d0)\<newline>'',
      ''bucket,HIRESv1_MED_d0,HIRESv3_MED_d1\<newline>'',
      ''0-15,12.3,8.7\<newline>'',
      ''15-45,30.1,25.0\<newline>'',
      ''45-90,40.0,41.3\<newline>'',
      ''90-180,17.6,25.0\<newline>'']"

definition sample_neva :: "string list" where
  "sample_neva =
     [''Error Distribution: NEVA (d1)\<newline>'',
      ''bucket,HIRESv1_MED_d0,HIRESv3_MED_d1\<newline>'',
      ''0-33,50.0,60.5\<newline>'',
      ''33-66,30.0,25.5\<newline>'',
      ''66-100,15.0,10.0\<newline>'',
      ''100+,5.0,4.0\<newline>'']"

definition sample_report :: "string list" where
  "sample_report = sample_header @ sample_direction @ sample_neva"

definition report_long_value :: "string list" where
  "report_long_value =
     [''Title\<newline>'', ''Instruments: a: b\<newline>'', ''Periode: 2020-2023\<newline>'',
      ''Modele: MED\<newline>'', ''Region: Global\<newline>''] @ sample_direction @ sample_neva"

definition report_short_neva :: "string list" where
  "report_short_neva = sample_header @ sample_direction @ take 4 sample_neva"

definition report_text_cell :: "string list" where
  "report_text_cell =
     sample_header @
     [''Error Distribution: Direction (d0)\<newline>'',
      ''bucket,HIRESv1_MED_d0,HIRESv3_MED_d1\<newline>'',
      ''0-15,12.3,8.7\<newline>'',
      ''15-45,abc,25.0\<newline>'',
      ''45-90,40.0,41.3\<newline>'',
      ''90-180,17.6,25.0\<newline>''] @ sample_neva"

section \<open>Properties of the string operations\<close>

lemmas samples = sample_header_def sample_direction_def sample_neva_def sample_report_def
  report_long_value_def report_short_neva_def report_text_cell_def

lemma startswith_iff: "startswith s p \<longleftrightarrow> (\<exists>b. s = p @ b)"
  by (induction s p rule: startswith.induct) auto

lemma contains_iff: "contains sub s \<longleftrightarrow> (\<exists>a b. s = a @ sub @ b)"
proof (induction s)
  case Nil
  then show ?case by auto
next
  case (Cons c cs)
  show ?case
  proof
    assume "contains sub (c # cs)"
    then consider "startswith (c # cs) sub" | "contains sub cs" by auto
    then show "\<exists>a b. c # cs = a @ sub @ b"
    proof cases
      case 1
      then obtain b where "c # cs = sub @ b" by (auto simp: startswith_iff)
      then have "c # cs = [] @ sub @ b" by simp
      then show ?thesis by blast
    next
      case 2
      with Cons.IH obtain a b where "cs = a @ sub @ b" by blast
      then have "c # cs = (c # a) @ sub @ b" by simp
      then show ?thesis by blast
    qed
  next
    assume "\<exists>a b. c # cs = a @ sub @ b"
    then obtain a b where ab: "c # cs = a @ sub @ b" by blast
    show "contains sub (c # cs)"
    proof (cases a)
      case Nil
      with ab have "startswith (c # cs) sub" by (auto simp: startswith_iff)
      then show ?thesis by simp
    next
      case (Cons x a')
      with ab have "cs = a' @ sub @ b" by simp
      with Cons.IH have "contains sub cs" by blast
      then show ?thesis by simp
    qed
  qed
qed

lemma split_from_nonempty: "split_from sep acc s \<noteq> []"
  by (induction sep acc s rule: split_from.induct) auto

lemma split_from_no_sep: "\<not> contains sep s \<Longrightarrow> split_from sep acc s = [acc @ s]"
  by (induction s arbitrary: acc) auto

lemma split_from_length: "sep \<noteq> [] \<Longrightarrow> contains sep s \<Longrightarrow> 2 \<le> length (split_from sep acc s)"
proof (induction s arbitrary: acc)
  case Nil
  then show ?case by simp
next
  case (Cons c cs)
  show ?case
  proof (cases "startswith (c # cs) sep")
    case True
    have "1 \<le> length (split_from sep [] (drop (length sep) (c # cs)))"
      using split_from_nonempty [of sep "[]" "drop (length sep) (c # cs)"]
      by (cases "split_from sep [] (drop (length sep) (c # cs))") auto
    with True Cons.prems show ?thesis by simp
  next
    case False
    with Cons.prems have "contains sep cs" by simp
    from Cons.IH [OF Cons.prems(1) this] False show ?thesis by simp
  qed
qed

lemma no_straddle:
  assumes ne: "sep \<noteq> []" and last: "last sep \<notin> set (butlast sep)" and a: "\<not> contains sep a"
  shows "\<not> contains sep (a @ butlast sep)"
proof
  assume "contains sep (a @ butlast sep)"
  then obtain u v where uv: "a @ butlast sep = u @ sep @ v" by (auto simp: contains_iff)
  define bs where "bs = butlast sep"
  define l where "l = last sep"
  from ne have sep: "sep = bs @ [l]" by (simp add: bs_def l_def)
  from uv have eq: "a @ bs = (u @ bs) @ l # v" by (simp add: sep bs_def [symmetric])
  from last have lbs: "l \<notin> set bs" by (simp add: bs_def l_def)
  from eq obtain w where "(a = (u @ bs) @ w \<and> w @ bs = l # v) \<or> (a @ w = u @ bs \<and> bs = w @ l # v)"
    by (auto simp: append_eq_append_conv2)
  then show False
  proof
    assume h: "a = (u @ bs) @ w \<and> w @ bs = l # v"
    show False
    proof (cases w)
      case Nil
      with h lbs show False by (cases bs) auto
    next
      case (Cons y w')
      with h have "a = u @ sep @ w'" by (simp add: sep)
      with a show False by (auto simp: contains_iff)
    qed
  next
    assume "a @ w = u @ bs \<and> bs = w @ l # v"
    with lbs show False by auto
  qed
qed

lemma getitem_split_1:
  "sep \<noteq> [] \<Longrightarrow> getitem (py_split sep s) (Suc 0) =
     (if contains sep s then Inr (py_split sep s ! 1) else Inl IndexError)"
  using split_from_length [of sep s "[]"] split_from_no_sep [of sep s "[]"]
  by (auto simp: getitem_def py_split_def)

lemma getitem_split_0: "getitem (py_split sep s) 0 = Inr (py_split sep s ! 0)"
  using split_from_nonempty [of sep "[]" s] by (auto simp: getitem_def py_split_def)

lemma header_value_eq:
  "header_value content k =
     (if k < length content \<and> contains '': '' (content ! k)
      then Inr (strip (py_split '': '' (content ! k) ! 1)) else Inl IndexError)"
proof (cases "k < length content")
  case True
  then have "getitem content k = Inr (content ! k)" by (simp add: getitem_def)
  then show ?thesis using True by (simp add: header_value_def getitem_split_1)
next
  case False
  then have "getitem content k = Inl IndexError" by (simp add: getitem_def)
  then show ?thesis using False by (simp add: header_value_def)
qed

lemma parse_error_line_eq:
  "contains ''Error Distribution:'' line \<Longrightarrow>
   parse_error_line line =
     (let error_info = strip (py_split ''Error Distribution:'' line ! 1)
      in Inr (strip (py_split ''('' error_info ! 0),
              if contains ''('' error_info
              then py_split '')'' (py_split ''('' error_info ! 1) ! 0 else []))"
  by (simp add: parse_error_line_def getitem_split_1 getitem_split_0 Let_def)

lemma scan_error_types_eq:
  "scan_error_types content acc =
     Inr (acc @ map descriptor (filter (contains ''Error Distribution:'') content))"
proof (induction content arbitrary: acc)
  case Nil
  then show ?case by simp
next
  case (Cons line rest)
  show ?case
  proof (cases "contains ''Error Distribution:'' line")
    case True
    from parse_error_line_eq [OF True] obtain t p where tp: "parse_error_line line = Inr (t, p)"
      by (auto simp: Let_def)
    with True Cons.IH show ?thesis by (simp add: descriptor_def)
  next
    case False
    with Cons.IH show ?thesis by simp
  qed
qed

lemma split_from_hd: "sep \<noteq> [] \<Longrightarrow> split_from sep acc s ! 0 = acc @ text_before sep s"
  by (induction s arbitrary: acc) auto

lemma split_from_second:
  "sep \<noteq> [] \<Longrightarrow> contains sep s \<Longrightarrow>
   split_from sep acc s ! 1 = text_before sep (text_after sep s)"
  by (induction s arbitrary: acc) (auto simp: split_from_hd)

lemma py_split_0: "sep \<noteq> [] \<Longrightarrow> py_split sep s ! 0 = text_before sep s"
  by (simp add: py_split_def split_from_hd)

lemma py_split_1:
  "sep \<noteq> [] \<Longrightarrow> contains sep s \<Longrightarrow> py_split sep s ! 1 = text_before sep (text_after sep s)"
  by (simp add: py_split_def split_from_second del: One_nat_def)

lemma text_before_first:
  assumes "sep \<noteq> []" "last sep \<notin> set (butlast sep)" "\<not> contains sep a"
  shows "text_before sep (a @ sep @ rest) = a" and "text_after sep (a @ sep @ rest) = rest"
proof -
  have first: "\<not> contains sep (a @ butlast sep)" using assms by (rule no_straddle)
  have ns: "\<not> startswith (b @ sep @ rest) sep" if "b \<noteq> []" "\<not> contains sep (b @ butlast sep)" for b
  proof
    assume "startswith (b @ sep @ rest) sep"
    then obtain t where t: "b @ sep @ rest = sep @ t" by (auto simp: startswith_iff)
    from that(1) have "length sep \<le> length (b @ butlast sep)" by (cases b) auto
    then have "take (length sep) (b @ butlast sep) = take (length sep) (b @ sep @ rest)"
      using assms(1) by (simp add: butlast_conv_take)
    also have "\<dots> = sep" using t by simp
    finally have "b @ butlast sep = [] @ sep @ drop (length sep) (b @ butlast sep)"
      by (metis append_take_drop_id append_Nil)
    then have "contains sep (b @ butlast sep)" unfolding contains_iff by blast
    with that(2) show False by simp
  qed
  have both: "text_before sep (b @ sep @ rest) = b \<and> text_after sep (b @ sep @ rest) = rest"
    if "\<not> contains sep (b @ butlast sep)" for b
    using that
  proof (induction b)
    case Nil
    from assms(1) obtain c cs where sep: "sep = c # cs" by (cases sep) auto
    have "startswith (sep @ rest) sep" by (auto simp: startswith_iff)
    then show ?case using sep by simp
  next
    case (Cons x b)
    from ns [of "x # b"] Cons.prems have "\<not> startswith (x # b @ sep @ rest) sep" by simp
    moreover from Cons.prems have "\<not> contains sep (b @ butlast sep)" by simp
    ultimately show ?case using Cons.IH by simp
  qed
  from both [OF first] show "text_before sep (a @ sep @ rest) = a"
    and "text_after sep (a @ sep @ rest) = rest" by simp_all
qed

lemma py_split_second_segment:
  assumes "sep \<noteq> []" "last sep \<notin> set (butlast sep)" "\<not> contains sep a" "\<not> contains sep b"
  shows "py_split sep (a @ sep @ b @ sep @ rest) ! 1 = b"
proof -
  have c: "contains sep (a @ sep @ b @ sep @ rest)" unfolding contains_iff by blast
  have "py_split sep (a @ sep @ b @ sep @ rest) ! 1 =
        text_before sep (text_after sep (a @ sep @ b @ sep @ rest))"
    using assms(1) c by (rule py_split_1)
  also have "\<dots> = text_before sep (b @ sep @ rest)"
    using assms(1-3) by (simp add: text_before_first(2))
  also have "\<dots> = b" using assms(1,2,4) by (rule text_before_first(1))
  finally show ?thesis .
qed

lemma strip_core:
  assumes "a \<noteq> []" "\<not> isspace (hd a)" "\<not> isspace (last a)" "list_all isspace ws"
  shows "strip (ws @ a @ y) = a @ rev (dropWhile isspace (rev y))"
proof -
  from assms(1,2) obtain c cs where a: "a = c # cs" "\<not> isspace c" by (cases a) auto
  have "dropWhile isspace (ws @ a @ y) = dropWhile isspace (a @ y)"
    using assms(4) by (intro dropWhile_append2) (simp add: list_all_iff)
  also have "\<dots> = a @ y" using a by simp
  finally have l: "dropWhile isspace (ws @ a @ y) = a @ y" .
  from assms(1,3) have r: "dropWhile isspace (rev a) = rev a"
    by (cases a rule: rev_cases) simp_all
  have "dropWhile isspace (rev y @ rev a) = dropWhile isspace (rev y) @ rev a"
  proof (cases "\<forall>x \<in> set (rev y). isspace x")
    case True
    then have "dropWhile isspace (rev y @ rev a) = dropWhile isspace (rev a)"
      by (intro dropWhile_append2) simp
    moreover from True have "dropWhile isspace (rev y) = []" by simp
    ultimately show ?thesis using r by simp
  next
    case False
    then obtain x where "x \<in> set (rev y)" "\<not> isspace x" by blast
    then show ?thesis by (rule dropWhile_append1)
  qed
  then show ?thesis unfolding strip_def l by simp
qed

lemma text_before_subset: "set (text_before sub s) \<subseteq> set s"
  by (induction s) auto

lemma all_less_take:
  "n \<le> length xs \<Longrightarrow> (\<forall>k < n. P (xs ! k)) \<longleftrightarrow> list_all P (take n xs)"
  by (auto simp: list_all_length)

section \<open>What the two functions compute\<close>

lemma extract_metadata_eq:
  assumes "fs file_path = Some content"
  shows "extract_metadata fs file_path =
     (if 5 \<le> length content \<and> (\<forall>k \<in> {1, 2, 3, 4}. contains '': '' (content ! k))
      then Inr \<lparr>instruments = strip (py_split '': '' (content ! 1) ! 1),
                periode = strip (py_split '': '' (content ! 2) ! 1),
                model = strip (py_split '': '' (content ! 3) ! 1),
                region = strip (py_split '': '' (content ! 4) ! 1),
                type_erreur = join_str '', ''
                  (map descriptor (filter (contains ''Error Distribution:'') content))\<rparr>
      else Inl IndexError)"
  using assms
  by (simp add: extract_metadata_def readlines_def header_value_eq scan_error_types_eq)

lemma next_index_none:
  "\<forall>l \<in> set content. \<not> contains sub l \<Longrightarrow> next_index sub i content = Inl StopIteration"
  by (induction content arbitrary: i) auto

lemma next_index_some:
  "\<exists>l \<in> set content. contains sub l \<Longrightarrow>
   \<exists>k < length content. next_index sub i content = Inr (i + k) \<and> contains sub (content ! k) \<and>
      (\<forall>j < k. \<not> contains sub (content ! j))"
proof (induction content arbitrary: i)
  case Nil
  then show ?case by simp
next
  case (Cons line rest)
  show ?case
  proof (cases "contains sub line")
    case True
    then show ?thesis by (intro exI [of _ 0]) simp
  next
    case False
    with Cons.prems have "\<exists>l \<in> set rest. contains sub l" by auto
    from Cons.IH [OF this, of "Suc i"] obtain k where k: "k < length rest"
      "next_index sub (Suc i) rest = Inr (Suc i + k)" "contains sub (rest ! k)"
      "\<forall>j < k. \<not> contains sub (rest ! j)" by blast
    have "\<forall>j < Suc k. \<not> contains sub ((line # rest) ! j)"
      using False k(4) by (auto simp: nth_Cons split: nat.splits)
    with k False show ?thesis by (intro exI [of _ "Suc k"]) simp
  qed
qed

lemma next_index_error: "next_index sub i content = Inl e \<Longrightarrow> e = StopIteration"
  by (induction content arbitrary: i) (auto split: if_splits)

lemma parse_error_line_text:
  assumes "contains ''Error Distribution:'' line"
  shows "parse_error_line line =
     (let error_info = strip (text_before ''Error Distribution:''
                               (text_after ''Error Distribution:'' line))
      in Inr (strip (text_before ''('' error_info),
              if contains ''('' error_info
              then text_before '')'' (text_before ''('' (text_after ''('' error_info))
              else []))"
  using assms
  by (simp add: parse_error_line_eq py_split_0 py_split_1 Let_def del: One_nat_def)

lemma marker_example_direction:
  assumes "\<not> contains ''Error Distribution:'' pre"
  shows "parse_error_line (pre @ ''Error Distribution: Direction (HIRES)'' @ post) =
         Inr (''Direction'', ''HIRES'')"
proof -
  let ?M = "''Error Distribution:''"
  let ?line = "pre @ ?M @ '' Direction (HIRES)'' @ post"
  have c: "contains ?M ?line" unfolding contains_iff by blast
  have ta: "text_after ?M ?line = '' Direction (HIRES)'' @ post"
    using assms by (intro text_before_first(2)) simp_all
  have tb: "text_before ?M ('' Direction (HIRES)'' @ post) =
            '' Direction (HIRES)'' @ text_before ?M post" by simp
  define z where "z = rev (dropWhile isspace (rev (text_before ?M post)))"
  have info: "strip ('' Direction (HIRES)'' @ text_before ?M post) = ''Direction (HIRES)'' @ z"
    using strip_core [of "''Direction (HIRES)''" "'' ''" "text_before ?M post"]
    by (simp add: isspace_def z_def)
  have k: "strip (text_before ''('' (''Direction (HIRES)'' @ z)) = ''Direction''"
    by (simp add: strip_def isspace_def)
  have p: "text_before '')'' (text_before ''('' (text_after ''('' (''Direction (HIRES)'' @ z))) = ''HIRES''"
    by simp
  have cp: "contains ''('' (''Direction (HIRES)'' @ z)" by simp
  have "parse_error_line ?line = Inr (''Direction'', ''HIRES'')"
    unfolding parse_error_line_text [OF c] ta tb info Let_def k p using cp by simp
  then show ?thesis by simp
qed

lemma marker_example_neva:
  assumes "\<not> contains ''Error Distribution:'' pre" "list_all isspace ws"
  shows "parse_error_line (pre @ ''Error Distribution: NEVA'' @ ws) = Inr (''NEVA'', [])"
proof -
  let ?M = "''Error Distribution:''"
  let ?line = "pre @ ?M @ '' NEVA'' @ ws"
  have c: "contains ?M ?line" unfolding contains_iff by blast
  have ta: "text_after ?M ?line = '' NEVA'' @ ws"
    using assms(1) by (intro text_before_first(2)) simp_all
  have tb: "text_before ?M ('' NEVA'' @ ws) = '' NEVA'' @ text_before ?M ws" by simp
  have sp: "\<forall>x \<in> set (rev (text_before ?M ws)). isspace x"
    using assms(2) text_before_subset [of ?M ws] by (auto simp: list_all_iff)
  then have dw: "dropWhile isspace (rev (text_before ?M ws)) = []" by simp
  have info: "strip ('' NEVA'' @ text_before ?M ws) = ''NEVA''"
    using strip_core [of "''NEVA''" "'' ''" "text_before ?M ws"]
    by (simp add: isspace_def dw)
  have k: "strip (text_before ''('' ''NEVA'') = ''NEVA''"
    by (simp add: strip_def isspace_def)
  have cp: "\<not> contains ''('' ''NEVA''" by simp
  have "parse_error_line ?line = Inr (''NEVA'', [])"
    unfolding parse_error_line_text [OF c] ta tb info Let_def k using cp by simp
  then show ?thesis by simp
qed

lemma next_index_first:
  assumes "i < length content" "contains sub (content ! i)"
    and "\<forall>k < i. \<not> contains sub (content ! k)"
  shows "next_index sub 0 content = Inr i"
proof -
  from assms(1) have "content ! i \<in> set content" by simp
  with assms(2) have "\<exists>l \<in> set content. contains sub l" by blast
  from next_index_some [OF this, of 0] obtain k where k: "k < length content"
    "next_index sub 0 content = Inr k" "contains sub (content ! k)"
    "\<forall>j < k. \<not> contains sub (content ! j)" by auto
  have "k = i"
  proof (rule ccontr)
    assume "k \<noteq> i"
    then consider "k < i" | "i < k" by linarith
    then show False using assms(2,3) k(3,4) by cases auto
  qed
  with k(2) show ?thesis by simp
qed

lemma read_csv_eq:
  assumes "fs file_path = Some content" "k < length content"
  shows "read_csv fs file_path k n =
         Inr \<lparr>columns = csv_fields (content ! k),
              rows = map csv_fields (take n (drop (Suc k) content))\<rparr>"
proof -
  from assms(2) have "drop k content = content ! k # drop (Suc k) content"
    by (simp add: Cons_nth_drop_Suc)
  with assms(1) show ?thesis by (simp add: read_csv_def readlines_def)
qed

lemma read_csv_empty:
  assumes "fs file_path = Some content" "length content \<le> k"
  shows "read_csv fs file_path k n = Inl EmptyDataError"
  using assms by (simp add: read_csv_def readlines_def)

lemma load_and_process_data_eq:
  assumes "fs file_path = Some content"
    and "i < length content" "contains ''Error Distribution: Direction'' (content ! i)"
    and "\<forall>k < i. \<not> contains ''Error Distribution: Direction'' (content ! k)"
    and "j < length content" "contains ''Error Distribution: NEVA'' (content ! j)"
    and "\<forall>k < j. \<not> contains ''Error Distribution: NEVA'' (content ! k)"
    and "i + 1 < length content" "j + 1 < length content"
  shows "load_and_process_data fs file_path =
         Inr (\<lparr>columns = csv_fields (content ! (i + 1)),
               rows = map csv_fields (take 4 (drop (i + 2) content))\<rparr>,
              \<lparr>columns = csv_fields (content ! (j + 1)),
               rows = map csv_fields (take 4 (drop (j + 2) content))\<rparr>)"
proof -
  have d: "next_index ''Error Distribution: Direction'' 0 content = Inr i"
    using assms(2-4) by (rule next_index_first)
  have n: "next_index ''Error Distribution: NEVA'' 0 content = Inr j"
    using assms(5-7) by (rule next_index_first)
  have rd: "read_csv fs file_path (i + 1) 4 =
      Inr \<lparr>columns = csv_fields (content ! (i + 1)),
           rows = map csv_fields (take 4 (drop (i + 2) content))\<rparr>"
    using read_csv_eq [of fs file_path content "i + 1" 4] assms(1,8) by simp
  have rn: "read_csv fs file_path (j + 1) 4 =
      Inr \<lparr>columns = csv_fields (content ! (j + 1)),
           rows = map csv_fields (take 4 (drop (j + 2) content))\<rparr>"
    using read_csv_eq [of fs file_path content "j + 1" 4] assms(1,9) by simp
  show ?thesis
    unfolding load_and_process_data_def readlines_def
    by (simp only: assms(1) option.case sum.case d n rd rn)
qed

section \<open>The claims\<close>

text \<open>
  The specification names the failures MarkerNotFoundError, MalformedHeaderError and
  MalformedTableError. The source defines no exception of its own: a missing marker is
  the StopIteration of \<^verbatim>\<open>next\<close>, and a malformed header is the IndexError of an
  index out of range.
\<close>

subsection \<open>C1: a valid report\<close>




subsection \<open>C2: fewer than 4 rows\<close>

text \<open>
  C2 (as amended). For every plain file with both markers, each followed by a header
  line, table extraction does not fail when fewer than 4 lines remain after a header line:
  each table has as many rows as lines remain, up to 4. (The source passes
  \<^verbatim>\<open>nrows=4\<close> to pandas and checks no count itself.)
\<close>

theorem short_table_returned:
  assumes "fs file_path = Some content"
    and "plain_csv content"
    and "i < length content" "contains ''Error Distribution: Direction'' (content ! i)"
    and "\<forall>k < i. \<not> contains ''Error Distribution: Direction'' (content ! k)"
    and "j < length content" "contains ''Error Distribution: NEVA'' (content ! j)"
    and "\<forall>k < j. \<not> contains ''Error Distribution: NEVA'' (content ! k)"
    and "i + 1 < length content" "j + 1 < length content"
    and "plain_block (take 5 (drop (i + 1) content))"
    and "plain_block (take 5 (drop (j + 1) content))"
  shows "\<exists>dir_data neva_data.
           load_and_process_data fs file_path = Inr (dir_data, neva_data) \<and>
           length (rows dir_data) = min 4 (length content - (i + 2)) \<and>
           length (rows neva_data) = min 4 (length content - (j + 2))"
  using load_and_process_data_eq [of fs file_path content i j] assms
  by (simp add: min.commute)

theorem short_table_returned_witness:
  "length report_short_neva - (11 + 2) = 2 \<and>
   (\<exists>dir_data neva_data.
      load_and_process_data [''r.csv'' \<mapsto> report_short_neva] ''r.csv'' =
        Inr (dir_data, neva_data) \<and>
      length (rows dir_data) = 4 \<and> length (rows neva_data) = 2)"
proof -
  let ?F = report_short_neva
  let ?fs = "[''r.csv'' \<mapsto> ?F]"
  have h1: "?fs ''r.csv'' = Some ?F" by simp
  have h2: "plain_csv ?F" by (simp add: samples plain_csv_def)
  have h4: "5 < length ?F" by (simp add: samples)
  have h5: "contains ''Error Distribution: Direction'' (?F ! 5)" by (simp add: samples)
  have h6: "\<forall>k < 5. \<not> contains ''Error Distribution: Direction'' (?F ! k)"
    by (subst all_less_take) (simp_all add: samples)
  have h7: "11 < length ?F" by (simp add: samples)
  have h8: "contains ''Error Distribution: NEVA'' (?F ! 11)" by (simp add: samples)
  have h9: "\<forall>k < 11. \<not> contains ''Error Distribution: NEVA'' (?F ! k)"
    by (subst all_less_take) (simp_all add: samples)
  have h10: "5 + 1 < length ?F" by (simp add: samples)
  have h11: "11 + 1 < length ?F" by (simp add: samples)
  have h12: "plain_block (take 5 (drop (5 + 1) ?F))"
    by (simp add: samples plain_block_def csv_fields_def chomp_def py_split_def strip_def
        isspace_def)
  have h13: "plain_block (take 5 (drop (11 + 1) ?F))"
    by (simp add: samples plain_block_def csv_fields_def chomp_def py_split_def strip_def
        isspace_def)
  have len: "length ?F = 15" by (simp add: samples)
  from short_table_returned [of ?fs "''r.csv''" ?F 5 11,
      OF h1 h2 h4 h5 h6 h7 h8 h9 h10 h11 h12 h13]
  show ?thesis by (simp add: len)
qed

text \<open>
  As the claim is stated, extraction fails when fewer than 4 rows remain. With 2 rows
  after the NEVA header it returns a NEVA table of 2 rows.
\<close>

theorem short_table_counterexample:
  "load_and_process_data [''r.csv'' \<mapsto> report_short_neva] ''r.csv'' =
     Inr (\<lparr>columns = [''bucket'', ''HIRESv1_MED_d0'', ''HIRESv3_MED_d1''],
           rows = [[''0-15'', ''12.3'', ''8.7''], [''15-45'', ''30.1'', ''25.0''],
                   [''45-90'', ''40.0'', ''41.3''], [''90-180'', ''17.6'', ''25.0'']]\<rparr>,
          \<lparr>columns = [''bucket'', ''HIRESv1_MED_d0'', ''HIRESv3_MED_d1''],
           rows = [[''0-33'', ''50.0'', ''60.5''], [''33-66'', ''30.0'', ''25.5'']]\<rparr>)"
  by (simp add: samples load_and_process_data_def read_csv_def readlines_def csv_fields_def
      chomp_def py_split_def)

subsection \<open>C3: a cell that is not a number\<close>




subsection \<open>C4: no NEVA marker\<close>

text \<open>
  C4. For every file with no line containing \<^verbatim>\<open>Error Distribution: NEVA\<close>, table
  extraction fails with StopIteration (the MarkerNotFoundError of the specification); no
  table is returned, the Direction table included, also when the Direction marker and
  its rows are present.
\<close>

theorem load_and_process_data_no_neva:
  assumes "fs file_path = Some content"
    and "\<forall>l \<in> set content. \<not> contains ''Error Distribution: NEVA'' l"
  shows "load_and_process_data fs file_path = Inl StopIteration"
proof -
  have neva: "next_index ''Error Distribution: NEVA'' 0 content = Inl StopIteration"
    using assms(2) by (rule next_index_none)
  show ?thesis
  proof (cases "next_index ''Error Distribution: Direction'' 0 content")
    case (Inl e)
    then have "e = StopIteration" by (rule next_index_error)
    with Inl assms(1) show ?thesis by (simp add: load_and_process_data_def readlines_def)
  next
    case (Inr dir_start)
    with neva assms(1) show ?thesis by (simp add: load_and_process_data_def readlines_def)
  qed
qed

theorem load_and_process_data_no_neva_witness:
  "list_all (\<lambda>l. \<not> contains ''Error Distribution: NEVA'' l) (sample_header @ sample_direction) \<and>
   load_and_process_data [''r.csv'' \<mapsto> sample_header @ sample_direction] ''r.csv'' =
     Inl StopIteration"
proof -
  let ?F = "sample_header @ sample_direction"
  have h1: "[''r.csv'' \<mapsto> ?F] ''r.csv'' = Some ?F" by simp
  have h2: "list_all (\<lambda>l. \<not> contains ''Error Distribution: NEVA'' l) ?F"
    by (simp add: samples)
  then have h3: "\<forall>l \<in> set ?F. \<not> contains ''Error Distribution: NEVA'' l"
    by (simp only: list_all_iff)
  from load_and_process_data_no_neva [of "[''r.csv'' \<mapsto> ?F]" "''r.csv''" ?F, OF h1 h3] h2
  show ?thesis by blast
qed

subsection \<open>C5: a malformed header\<close>

text \<open>
  C5. For every file with fewer than 5 lines, and for every file in which one of the
  lines 2 to 5 does not contain the separator \<^verbatim>\<open>': '\<close>, metadata extraction fails with
  IndexError (the MalformedHeaderError of the specification).
\<close>

theorem extract_metadata_malformed_header:
  assumes "fs file_path = Some content"
    and "length content < 5 \<or> (\<exists>k \<in> {1, 2, 3, 4}. \<not> contains '': '' (content ! k))"
  shows "extract_metadata fs file_path = Inl IndexError"
  using assms by (auto simp: extract_metadata_eq)

theorem extract_metadata_malformed_header_witness:
  "length (take 3 sample_header) < 5 \<and>
   extract_metadata [''r.csv'' \<mapsto> take 3 sample_header] ''r.csv'' = Inl IndexError \<and>
   \<not> contains '': ''
      ([''Title\<newline>'', ''Instruments: HIRESv1\<newline>'', ''Periode 2020\<newline>'',
        ''Modele: MED\<newline>'', ''Region: Global\<newline>''] ! 2) \<and>
   extract_metadata
     [''r.csv'' \<mapsto> [''Title\<newline>'', ''Instruments: HIRESv1\<newline>'', ''Periode 2020\<newline>'',
                     ''Modele: MED\<newline>'', ''Region: Global\<newline>'']] ''r.csv'' = Inl IndexError"
proof -
  let ?A = "take 3 sample_header"
  let ?B = "[''Title\<newline>'', ''Instruments: HIRESv1\<newline>'', ''Periode 2020\<newline>'',
             ''Modele: MED\<newline>'', ''Region: Global\<newline>'']"
  have a1: "[''r.csv'' \<mapsto> ?A] ''r.csv'' = Some ?A" by simp
  have a2: "length ?A < 5" by (simp add: samples)
  have b1: "[''r.csv'' \<mapsto> ?B] ''r.csv'' = Some ?B" by simp
  have b2: "\<not> contains '': '' (?B ! 2)" by simp
  then have b3: "length ?B < 5 \<or> (\<exists>k \<in> {1, 2, 3, 4}. \<not> contains '': '' (?B ! k))" by blast
  from a2 have a3: "length ?A < 5 \<or> (\<exists>k \<in> {1, 2, 3, 4}. \<not> contains '': '' (?A ! k))" by blast
  from extract_metadata_malformed_header [of "[''r.csv'' \<mapsto> ?A]" "''r.csv''" ?A, OF a1 a3]
    extract_metadata_malformed_header [of "[''r.csv'' \<mapsto> ?B]" "''r.csv''" ?B, OF b1 b3]
    a2 b2
  show ?thesis by blast
qed

subsection \<open>C6: the pair of a marker line\<close>

text \<open>
  C6 (as amended). For every line containing \<^verbatim>\<open>Error Distribution:\<close>, the parsed text
  is what stands between the first occurrence of that substring and its next occurrence
  (or the end of the line), stripped. The kind is that text up to its first \<^verbatim>\<open>(\<close>,
  stripped; the parameter is empty when the text has no \<^verbatim>\<open>(\<close>, and otherwise it is what
  follows the first \<^verbatim>\<open>(\<close> up to the next \<^verbatim>\<open>(\<close> or \<^verbatim>\<open>)\<close> or the end. A line whose
  first marker reads \<^verbatim>\<open>Error Distribution: Direction (HIRES)\<close> gives the kind
  \<^verbatim>\<open>Direction\<close> and the parameter \<^verbatim>\<open>HIRES\<close>; a line whose first marker reads
  \<^verbatim>\<open>Error Distribution: NEVA\<close>, followed by whitespace only, gives the kind \<^verbatim>\<open>NEVA\<close>
  and an empty parameter.
\<close>

theorem parse_error_line_first_segment:
  "(contains ''Error Distribution:'' line \<longrightarrow>
      parse_error_line line =
        (let error_info = strip (text_before ''Error Distribution:''
                                  (text_after ''Error Distribution:'' line))
         in Inr (strip (text_before ''('' error_info),
                 if contains ''('' error_info
                 then text_before '')'' (text_before ''('' (text_after ''('' error_info))
                 else []))) \<and>
   (\<not> contains ''Error Distribution:'' pre \<longrightarrow>
      parse_error_line (pre @ ''Error Distribution: Direction (HIRES)'' @ post) =
        Inr (''Direction'', ''HIRES'')) \<and>
   (\<not> contains ''Error Distribution:'' pre \<and> list_all isspace ws \<longrightarrow>
      parse_error_line (pre @ ''Error Distribution: NEVA'' @ ws) = Inr (''NEVA'', []))"
  using parse_error_line_text [of line] marker_example_direction [of pre post]
    marker_example_neva [of pre ws]
  by blast

theorem parse_error_line_first_segment_witness:
  "contains ''Error Distribution:'' ''Error Distribution: Direction (HIRES)\<newline>'' \<and>
   parse_error_line ''Error Distribution: Direction (HIRES)\<newline>'' =
     Inr (''Direction'', ''HIRES'') \<and>
   \<not> contains ''Error Distribution:'' ''Table 2 - '' \<and>
   parse_error_line ''Table 2 - Error Distribution: NEVA\<newline>'' = Inr (''NEVA'', [])"
proof -
  note t = parse_error_line_first_segment
    [of "''Error Distribution: Direction (HIRES)\<newline>''" "''Table 2 - ''" "''\<newline>''"
        "''\<newline>''"]
  have c: "contains ''Error Distribution:'' ''Error Distribution: Direction (HIRES)\<newline>''"
    by simp
  have n: "\<not> contains ''Error Distribution:'' ''Table 2 - ''" by simp
  have w: "list_all isspace ''\<newline>''" by (simp add: isspace_def)
  from t c have "parse_error_line ''Error Distribution: Direction (HIRES)\<newline>'' =
     (let error_info = strip (text_before ''Error Distribution:''
        (text_after ''Error Distribution:'' ''Error Distribution: Direction (HIRES)\<newline>''))
      in Inr (strip (text_before ''('' error_info),
              if contains ''('' error_info
              then text_before '')'' (text_before ''('' (text_after ''('' error_info))
              else []))"
    by blast
  then have d: "parse_error_line ''Error Distribution: Direction (HIRES)\<newline>'' =
     Inr (''Direction'', ''HIRES'')"
    by (simp add: strip_def isspace_def)
  from t n w have "parse_error_line (''Table 2 - '' @ ''Error Distribution: NEVA'' @ ''\<newline>'') =
     Inr (''NEVA'', [])"
    by blast
  then have e: "parse_error_line ''Table 2 - Error Distribution: NEVA\<newline>'' = Inr (''NEVA'', [])"
    by simp
  from c d n e show ?thesis by blast
qed

text \<open>
  As the claim is stated, the pair comes from the text after the marker substring and
  from its first \<^verbatim>\<open>(\<close> ... \<^verbatim>\<open>)\<close> pair. A second marker on the line cuts the text, and
  so does a second \<^verbatim>\<open>(\<close> inside the parentheses.
\<close>

theorem parse_error_line_counterexample:
  "parse_error_line ''Error Distribution: A Error Distribution: B (p)\<newline>'' = Inr (''A'', []) \<and>
   claimed_error_pair ''Error Distribution: A Error Distribution: B (p)\<newline>'' =
     (''A Error Distribution: B'', ''p'') \<and>
   parse_error_line ''Error Distribution: A (b(c))\<newline>'' = Inr (''A'', ''b'') \<and>
   claimed_error_pair ''Error Distribution: A (b(c))\<newline>'' = (''A'', ''b(c'')"
  by (simp add: parse_error_line_def claimed_error_pair_def py_split_def getitem_def
      strip_def isspace_def)

subsection \<open>C7: locating a marker\<close>

text \<open>
  C7. For every list of lines and every marker substring, the location of the marker is
  the index of the first line that contains the substring; when no line contains it the
  lookup fails with StopIteration (the MarkerNotFoundError of the specification) and no
  index is returned.
\<close>

theorem next_index_first_match:
  "((\<exists>l \<in> set content. contains sub l) \<longrightarrow>
      (\<exists>i < length content. next_index sub 0 content = Inr i \<and> contains sub (content ! i) \<and>
         (\<forall>j < i. \<not> contains sub (content ! j)))) \<and>
   ((\<forall>l \<in> set content. \<not> contains sub l) \<longrightarrow> next_index sub 0 content = Inl StopIteration)"
  using next_index_some [of content sub 0] next_index_none [of content sub 0] by auto

theorem next_index_first_match_witness:
  "(\<exists>l \<in> set sample_report. contains ''Error Distribution: NEVA'' l) \<and>
   next_index ''Error Distribution: NEVA'' 0 sample_report = Inr 11 \<and>
   list_all (\<lambda>l. \<not> contains ''Error Distribution: NEVA'' l) (sample_header @ sample_direction) \<and>
   next_index ''Error Distribution: NEVA'' 0 (sample_header @ sample_direction) =
     Inl StopIteration"
proof -
  let ?N = "''Error Distribution: NEVA''"
  let ?F = "sample_header @ sample_direction"
  have a: "\<exists>l \<in> set sample_report. contains ?N l" by (simp add: samples)
  have b: "list_all (\<lambda>l. \<not> contains ?N l) ?F" by (simp add: samples)
  then have b': "\<forall>l \<in> set ?F. \<not> contains ?N l" by (simp only: list_all_iff)
  from next_index_first_match [of sample_report ?N] a
  obtain i where i: "next_index ?N 0 sample_report = Inr i" by blast
  have "next_index ?N 0 sample_report = Inr 11" by (simp add: samples)
  moreover from next_index_first_match [of ?F ?N] b'
  have "next_index ?N 0 ?F = Inl StopIteration" by blast
  ultimately show ?thesis using a b by blast
qed

subsection \<open>C9: metadata without tables\<close>



subsection \<open>C10: a value that contains the separator\<close>

text \<open>
  C10. For every header line (lines 2 to 5) whose value contains the separator
  \<^verbatim>\<open>': '\<close> again, metadata extraction succeeds and keeps only what stands between the
  first and the second separator, stripped: the rest of the value is dropped. Here the
  line \<open>k\<close> reads \<open>label\<close>, separator, \<open>v\<close>, separator, \<open>rest\<close>.
\<close>

theorem header_value_truncated:
  assumes "fs file_path = Some content"
    and "5 \<le> length content"
    and "\<forall>j \<in> {1, 2, 3, 4}. contains '': '' (content ! j)"
    and "k \<in> {1, 2, 3, 4}"
    and "content ! k = label @ '': '' @ v @ '': '' @ rest"
    and "\<not> contains '': '' label" and "\<not> contains '': '' v"
  shows "\<exists>m. extract_metadata fs file_path = Inr m \<and>
           (k = 1 \<longrightarrow> instruments m = strip v) \<and>
           (k = 2 \<longrightarrow> periode m = strip v) \<and>
           (k = 3 \<longrightarrow> model m = strip v) \<and>
           (k = 4 \<longrightarrow> region m = strip v)"
proof -
  have seg: "py_split '': '' (content ! k) ! 1 = v"
    unfolding assms(5) using assms(6,7) by (intro py_split_second_segment) simp_all
  from assms(1-3) have "extract_metadata fs file_path =
      Inr \<lparr>instruments = strip (py_split '': '' (content ! 1) ! 1),
           periode = strip (py_split '': '' (content ! 2) ! 1),
           model = strip (py_split '': '' (content ! 3) ! 1),
           region = strip (py_split '': '' (content ! 4) ! 1),
           type_erreur = join_str '', ''
             (map descriptor (filter (contains ''Error Distribution:'') content))\<rparr>"
    by (simp add: extract_metadata_eq)
  with seg show ?thesis by auto
qed

theorem header_value_truncated_witness:
  "report_long_value ! 1 = ''Instruments'' @ '': '' @ ''a'' @ '': '' @ ''b\<newline>'' \<and>
   (\<exists>m. extract_metadata [''r.csv'' \<mapsto> report_long_value] ''r.csv'' = Inr m \<and>
        instruments m = ''a'')"
proof -
  let ?C = report_long_value
  have h1: "[''r.csv'' \<mapsto> ?C] ''r.csv'' = Some ?C" by simp
  have h2: "5 \<le> length ?C" by (simp add: samples)
  have h3: "\<forall>j \<in> {1, 2, 3, 4}. contains '': '' (?C ! j)" by (simp add: samples)
  have h4: "(1::nat) \<in> {1, 2, 3, 4}" by simp
  have h5: "?C ! 1 = ''Instruments'' @ '': '' @ ''a'' @ '': '' @ ''b\<newline>''"
    by (simp add: samples)
  have h6: "\<not> contains '': '' ''Instruments''" by simp
  have h7: "\<not> contains '': '' ''a''" by simp
  from header_value_truncated
    [of "[''r.csv'' \<mapsto> ?C]" "''r.csv''" ?C 1 "''Instruments''" "''a''" "''b\<newline>''",
     OF h1 h2 h3 h4 h5 h6 h7]
  have "\<exists>m. extract_metadata [''r.csv'' \<mapsto> ?C] ''r.csv'' = Inr m \<and> instruments m = ''a''"
    by (simp add: strip_def isspace_def)
  with h5 show ?thesis by blast
qed

end
